theory Spec2Isabelle
  imports Main "HOL-Library.Word"
begin

unbundle bit_operations_syntax

section \<open>Field errors and the error values that carry them\<close>

text \<open>
  \<^verbatim>\<open>type FieldError struct { Field string; Description string }\<close> and
  \<^verbatim>\<open>type FieldErrors []FieldError\<close> (validator.go).
\<close>

record FieldError =
  Field :: string
  Description :: string

type_synonym FieldErrors = "FieldError list"

text \<open>
  A Go \<^verbatim>\<open>error\<close> value that is not nil: a \<^verbatim>\<open>FieldError\<close>, a
  \<^verbatim>\<open>FieldErrors\<close>, or an error of another type, which has a message and may
  wrap a further error (its \<^verbatim>\<open>Unwrap\<close>). The nil error is \<open>None\<close> of
  \<open>gerror option\<close>.
\<close>

datatype gerror =
    IsFieldError FieldError
  | IsFieldErrors FieldErrors
  | OtherError string "gerror option"

text \<open>
  \<^verbatim>\<open>errors.As(err, &fieldError)\<close> with a target of type \<^verbatim>\<open>FieldError\<close>: the first
  error of the chain that is a \<^verbatim>\<open>FieldError\<close>. Neither \<^verbatim>\<open>FieldError\<close> nor
  \<^verbatim>\<open>FieldErrors\<close> has an \<^verbatim>\<open>Unwrap\<close> method, so the chain ends there.
\<close>

fun asFieldError :: "gerror \<Rightarrow> FieldError option" where
  "asFieldError (IsFieldError fe) = Some fe"
| "asFieldError (IsFieldErrors fes) = None"
| "asFieldError (OtherError msg None) = None"
| "asFieldError (OtherError msg (Some e)) = asFieldError e"

fun asFieldErrors :: "gerror \<Rightarrow> FieldErrors option" where
  "asFieldErrors (IsFieldError fe) = None"
| "asFieldErrors (IsFieldErrors fes) = Some fes"
| "asFieldErrors (OtherError msg None) = None"
| "asFieldErrors (OtherError msg (Some e)) = asFieldErrors e"


text \<open>
  \<^verbatim>\<open>func (ve FieldErrors) Error() string\<close>: the field names joined with a comma and a
  space, behind one of two fixed prefixes.
\<close>

fun joinFields :: "string \<Rightarrow> FieldErrors \<Rightarrow> string" where
  "joinFields err [] = err"
| "joinFields err (fe # ve) =
     joinFields ((if err \<noteq> [] then err @ '', '' else err) @ Field fe) ve"

definition FieldErrors_Error :: "FieldErrors \<Rightarrow> string" where
  "FieldErrors_Error ve =
     (if length ve = 1 then ''field is invalid: '' @ joinFields [] ve
      else ''fields are invalid: '' @ joinFields [] ve)"

definition FieldError_Error :: "FieldError \<Rightarrow> string" where
  "FieldError_Error fe = ''field is invalid: '' @ Field fe"

section \<open>ValidationResult (result.go)\<close>

record ValidationResult =
  Errors :: FieldErrors

definition IsValid :: "ValidationResult \<Rightarrow> bool" where
  "IsValid r = (length (Errors r) = 0)"

definition Err :: "ValidationResult \<Rightarrow> gerror option" where
  "Err r = (if IsValid r then None else Some (IsFieldErrors (Errors r)))"

definition Error :: "ValidationResult \<Rightarrow> string" where
  "Error r = (if IsValid r then [] else FieldErrors_Error (Errors r))"

text \<open>
  \<^verbatim>\<open>AddError\<close>: a nil error matches neither \<^verbatim>\<open>errors.As\<close>; an error carrying a
  \<^verbatim>\<open>FieldErrors\<close> has each entry appended; otherwise an error carrying a
  \<^verbatim>\<open>FieldError\<close> has it appended; any other error is dropped.
\<close>

definition AddError :: "ValidationResult \<Rightarrow> gerror option \<Rightarrow> ValidationResult" where
  "AddError r err =
     (case err of
        None \<Rightarrow> r
      | Some e \<Rightarrow>
          (case asFieldErrors e of
             Some fieldErrors \<Rightarrow> r\<lparr>Errors := Errors r @ fieldErrors\<rparr>
           | None \<Rightarrow>
               (case asFieldError e of
                  Some fieldError \<Rightarrow> r\<lparr>Errors := Errors r @ [fieldError]\<rparr>
                | None \<Rightarrow> r)))"

fun AddErrors :: "ValidationResult \<Rightarrow> gerror option list \<Rightarrow> ValidationResult" where
  "AddErrors r [] = r"
| "AddErrors r (err # errs) = AddErrors (AddError r err) errs"

fun NewResult_loop :: "ValidationResult \<Rightarrow> gerror option list \<Rightarrow> ValidationResult" where
  "NewResult_loop result [] = result"
| "NewResult_loop result (err # errs) =
     NewResult_loop (if err \<noteq> None then AddError result err else result) errs"

definition NewResult :: "gerror option list \<Rightarrow> ValidationResult" where
  "NewResult errs = NewResult_loop \<lparr>Errors = []\<rparr> errs"

section \<open>Fields: composing single-field results (validator.go)\<close>




section \<open>Go values as the validator sees them through reflection\<close>

text \<open>
  A closed model of the values that \<^verbatim>\<open>reflect.Value\<close> can show, one constructor per
  \<^verbatim>\<open>reflect.Kind\<close> that the package distinguishes:
  \<^item> \<open>VInvalid\<close> is the nil \<^verbatim>\<open>interface{}\<close> (\<^verbatim>\<open>reflect.ValueOf(nil)\<close>, kind Invalid);
  \<^item> \<open>VInt\<close> stands for Int, Int8 .. Int64 (read by \<^verbatim>\<open>st.Int()\<close>), \<open>VUint\<close> for
    Uint .. Uint64 and Uintptr (read by \<^verbatim>\<open>st.Uint()\<close>);
  \<^item> \<open>VFloat\<close> holds the IEEE 754 binary64 bits of \<^verbatim>\<open>st.Float()\<close> (a float32 widens
    exactly);
  \<^item> \<open>VPtr None\<close> is a nil pointer, \<open>VPtr (Some x)\<close> points to \<open>x\<close>;
  \<^item> \<open>VIface\<close> is a \<^verbatim>\<open>reflect.Value\<close> of kind Interface, which only a struct field, an
    element, a map key or value, or the target of a pointer of interface type can be:
    \<open>VIface None\<close> is nil, \<open>VIface (Some x)\<close> holds the dynamic value \<open>x\<close>;
  \<^item> \<open>VMap\<close> lists the entries in the order \<^verbatim>\<open>MapKeys()\<close> yields the keys;
  \<^item> \<open>VStruct\<close> lists the fields in declaration order; a field has its name, its
    struct tag as key/value pairs, and its value;
  \<^item> \<open>VTime t\<close> is a \<^verbatim>\<open>time.Time\<close> (kind Struct) at instant \<open>t\<close>, in nanoseconds
    since the Unix epoch;
  \<^item> \<open>VOther\<close> is a value of any remaining kind (Chan, Func, Complex64, Complex128,
    UnsafePointer).
  Values are finite trees: a cyclic pointer graph, on which the Go code recurses without
  end, has no representation here.
\<close>

datatype gvalue =
    VInvalid
  | VBool bool
  | VInt int
  | VUint nat
  | VFloat "64 word"
  | VString string
  | VPtr "gvalue option"
  | VIface "gvalue option"
  | VSlice "gvalue list"
  | VArray "gvalue list"
  | VMap "(gvalue \<times> gvalue) list"
  | VStruct "gfield list"
  | VTime int
  | VOther
and gfield =
    GField (fname: string) (ftag: "(string \<times> string) list") (fval: gvalue)

text \<open>
  \<^verbatim>\<open>reflect.ValueOf(v.Interface())\<close>: passing a \<^verbatim>\<open>reflect.Value\<close> on as an
  \<^verbatim>\<open>interface{}\<close> and looking at it again loses the Interface kind: a nil interface
  becomes the Invalid value, a non-nil one shows its dynamic value.
\<close>

fun ValueOf :: "gvalue \<Rightarrow> gvalue" where
  "ValueOf (VIface None) = VInvalid"
| "ValueOf (VIface (Some x)) = ValueOf x"
| "ValueOf v = v"

text \<open>\<^verbatim>\<open>for f.Kind() == reflect.Ptr && !f.IsNil() { f = f.Elem() }\<close>\<close>

fun derefPtrs :: "gvalue \<Rightarrow> gvalue" where
  "derefPtrs (VPtr (Some x)) = derefPtrs x"
| "derefPtrs v = v"

text \<open>\<^verbatim>\<open>StructTag.Get(key)\<close>: the value under the key, the empty string without one.\<close>

definition Tag_Get :: "(string \<times> string) list \<Rightarrow> string \<Rightarrow> string" where
  "Tag_Get t key = (case map_of t key of Some v \<Rightarrow> v | None \<Rightarrow> [])"

section \<open>Panics, rules, tags and the validator\<close>

text \<open>
  A panic aborts the call; the model returns its value as \<open>Inl\<close>.
  \<open>UnknownTag tagName name\<close> is \<^verbatim>\<open>fmt.Sprintf("unknown %s tag %q", mv.tagName, tg.Name)\<close>;
  \<open>Panic msg\<close> is any other panic (a checker's \<^verbatim>\<open>"invalid type for ... tag"\<close>, a
  failed reflect call, an index out of range).
\<close>

datatype panicv = UnknownTag string string | Panic string

text \<open>
  \<^verbatim>\<open>ValidationRule\<close>. A checker may panic. The error function is absent (nil) for
  \<^verbatim>\<open>optional\<close>. The Go error function receives the whole \<^verbatim>\<open>Tag\<close>; the model hands
  it the tag's name and parameter (the rule inside the tag is the one being run), which
  keeps the types well-founded. Error functions only format a string.
\<close>

record ValidationRule =
  Tag :: string
  Checker :: "gvalue \<Rightarrow> string \<Rightarrow> panicv + bool"
  ErrorFunc :: "(string \<Rightarrow> gvalue \<Rightarrow> string \<times> string \<Rightarrow> string) option"

record tag =
  Name :: string
  Rule :: ValidationRule
  Param :: string

record Validator =
  tagName :: string
  rules :: "string \<rightharpoonup> ValidationRule"
  fullErrorPath :: bool
  tagAliases :: "string \<rightharpoonup> tag list"

text \<open>
  The state shared by all calls: the package-level \<^verbatim>\<open>tagCache\<close> (one table for every
  validator of the process, keyed by the raw declaration string), and a log that is not
  in the source: \<open>calls\<close> records, in order, every invocation of a rule's checker, as
  the tag's name, the value and the parameter it was given. The log is what lets
  a statement say that no checker was invoked.
\<close>

record vstate =
  tagCache :: "string \<rightharpoonup> tag list"
  calls :: "(string \<times> gvalue \<times> string) list"

text \<open>
  \<^verbatim>\<open>NewValidator()\<close> before any option is applied; the options
  \<^verbatim>\<open>WithFullErrorPath\<close> and (one rule at a time) \<^verbatim>\<open>AddRule\<close> as functions on the
  validator.
\<close>

definition NewValidator :: Validator where
  "NewValidator =
     \<lparr>tagName = ''validate'', rules = Map.empty, fullErrorPath = False,
      tagAliases = Map.empty\<rparr>"

definition WithFullErrorPath :: "Validator \<Rightarrow> Validator" where
  "WithFullErrorPath v = v\<lparr>fullErrorPath := True\<rparr>"

definition AddRule :: "Validator \<Rightarrow> ValidationRule \<Rightarrow> Validator" where
  "AddRule mv rule = mv\<lparr>rules := (rules mv)(Tag rule \<mapsto> rule)\<rparr>"

section \<open>The declaration parser (validator.go)\<close>

definition backslash :: char where
  "backslash = CHR 0x5C"

text \<open>
  \<^verbatim>\<open>sepPattern = regexp.MustCompile(`((?:^|[^\\])(?:\\\\)*),`)\<close>, on strings as byte
  sequences. \<open>pairsThenComma\<close> matches the tail \<^verbatim>\<open>(?:\\\\)*,\<close> at the head of a text
  and gives the number of bytes matched: pairs of backslashes, then a comma.
\<close>

fun pairsThenComma :: "string \<Rightarrow> nat option" where
  "pairsThenComma [] = None"
| "pairsThenComma [c] = (if c = CHR '','' then Some 1 else None)"
| "pairsThenComma (c # d # rest) =
     (if c = CHR '','' then Some 1
      else if c = backslash \<and> d = backslash
        then map_option (\<lambda>n. n + 2) (pairsThenComma rest)
      else None)"

text \<open>
  The end of the match that starts at index \<open>p\<close>, if there is one. The first
  alternative, \<^verbatim>\<open>^\<close>, is only possible at the start of the text and is preferred
  there (Go's leftmost-first matching); the second, \<^verbatim>\<open>[^\\]\<close>, takes one character
  that is not a backslash.
\<close>

definition matchFrom :: "string \<Rightarrow> nat \<Rightarrow> nat option" where
  "matchFrom str p =
     (case (if p = 0 then pairsThenComma str else None) of
        Some n \<Rightarrow> Some n
      | None \<Rightarrow>
          (if p < length str \<and> str ! p \<noteq> backslash
           then map_option (\<lambda>n. p + 1 + n) (pairsThenComma (drop (p + 1) str))
           else None))"

text \<open>The leftmost match that starts at or after \<open>pos\<close>.\<close>

function findNext :: "string \<Rightarrow> nat \<Rightarrow> (nat \<times> nat) option" where
  "findNext str p =
     (if length str \<le> p then None
      else (case matchFrom str p of
              Some e \<Rightarrow> Some (p, e)
            | None \<Rightarrow> findNext str (Suc p)))"
  by pat_completeness auto
termination
  by (relation "measure (\<lambda>(str, p). length str - p)") auto

declare findNext.simps [simp del]

lemma pairsThenComma_bounds: "pairsThenComma s = Some n \<Longrightarrow> 0 < n \<and> n \<le> length s"
  by (induction s arbitrary: n rule: pairsThenComma.induct) (auto split: if_splits)

lemma matchFrom_bounds: "matchFrom str p = Some e \<Longrightarrow> p < e \<and> e \<le> length str"
  by (auto simp: matchFrom_def split: option.splits if_splits dest!: pairsThenComma_bounds)

lemma findNext_bounds: "findNext str p = Some (s, e) \<Longrightarrow> p \<le> s \<and> s < e \<and> e \<le> length str"
proof (induction str p rule: findNext.induct)
  case (1 str p)
  then show ?case
    by (subst (asm) (2) findNext.simps) (auto split: if_splits option.splits dest: matchFrom_bounds)
qed

text \<open>
  \<^verbatim>\<open>sepPattern.FindAllStringIndex(str, -1)\<close>: the successive matches, each searched
  from the end of the one before (every match holds a comma, so none is empty).
\<close>

function FindAllStringIndex :: "string \<Rightarrow> nat \<Rightarrow> (nat \<times> nat) list" where
  "FindAllStringIndex str pos =
     (case findNext str pos of
        None \<Rightarrow> []
      | Some (s, e) \<Rightarrow> (s, e) # FindAllStringIndex str e)"
  by pat_completeness auto
termination FindAllStringIndex
proof (relation "measure (\<lambda>(str, pos). length str - pos)")
  show "wf (measure (\<lambda>(str, pos). length str - pos))" by simp
next
  fix str :: string and pos x2 s e
  assume "findNext str pos = Some x2" and "(s, e) = x2"
  then have "pos \<le> s \<and> s < e \<and> e \<le> length str"
    using findNext_bounds [of str pos s e] by simp
  then show "((str, e), (str, pos)) \<in> measure (\<lambda>(str, pos). length str - pos)"
    by auto
qed

declare FindAllStringIndex.simps [simp del]

text \<open>
  \<^verbatim>\<open>splitUnescapedComma\<close>: each match \<open>is\<close> ends just behind its comma, so the piece
  before it is \<^verbatim>\<open>str[last:is[1]-1]\<close>; the rest of the string is the final piece.
\<close>

fun pieces_loop :: "string \<Rightarrow> (nat \<times> nat) list \<Rightarrow> nat \<Rightarrow> string list" where
  "pieces_loop str [] lst = [drop lst str]"
| "pieces_loop str (is # indexes) lst =
     take (snd is - 1 - lst) (drop lst str) # pieces_loop str indexes (snd is)"

definition splitUnescapedComma :: "string \<Rightarrow> string list" where
  "splitUnescapedComma str = pieces_loop str (FindAllStringIndex str 0) 0"

text \<open>\<^verbatim>\<open>strings.ReplaceAll(i, `\,`, ",")\<close>\<close>

fun ReplaceAll_escaped_comma :: "string \<Rightarrow> string" where
  "ReplaceAll_escaped_comma (c # d # rest) =
     (if c = backslash \<and> d = CHR '','' then CHR '','' # ReplaceAll_escaped_comma rest
      else c # ReplaceAll_escaped_comma (d # rest))"
| "ReplaceAll_escaped_comma s = s"

text \<open>
  \<^verbatim>\<open>strings.SplitN(i, "=", 2)\<close>: the text before the first \<^verbatim>\<open>=\<close> and, when there
  is one, the text behind it.
\<close>

definition SplitN_eq :: "string \<Rightarrow> string \<times> string option" where
  "SplitN_eq i =
     (if CHR ''='' \<in> set i
      then (takeWhile (\<lambda>c. c \<noteq> CHR ''='') i, Some (tl (dropWhile (\<lambda>c. c \<noteq> CHR ''='') i)))
      else (i, None))"

text \<open>\<^verbatim>\<open>strings.Trim(s, " ")\<close>\<close>

definition Trim_space :: "string \<Rightarrow> string" where
  "Trim_space s =
     rev (dropWhile (\<lambda>c. c = CHR '' '') (rev (dropWhile (\<lambda>c. c = CHR '' '') s)))"

text \<open>The name that \<^verbatim>\<open>mustParseTags\<close> reads from one piece of the declaration.\<close>

definition pieceName :: "string \<Rightarrow> string" where
  "pieceName i = Trim_space (fst (SplitN_eq (ReplaceAll_escaped_comma i)))"

definition pieceParam :: "string \<Rightarrow> string" where
  "pieceParam i =
     (case snd (SplitN_eq (ReplaceAll_escaped_comma i)) of
        Some p \<Rightarrow> Trim_space p
      | None \<Rightarrow> [])"

text \<open>
  The loop of \<^verbatim>\<open>mustParseTags\<close> over the pieces: an empty name panics; a name of a
  rule appends its tag; otherwise a name of an alias appends the alias's tags;
  otherwise the name is unknown and the loop panics.
\<close>

fun mustParseTags_loop :: "Validator \<Rightarrow> string list \<Rightarrow> tag list \<Rightarrow> panicv + tag list" where
  "mustParseTags_loop mv [] tags = Inr tags"
| "mustParseTags_loop mv (i # pieces) tags =
     (if pieceName i = [] then Inl (UnknownTag (tagName mv) (pieceName i))
      else (case rules mv (pieceName i) of
              Some r \<Rightarrow>
                mustParseTags_loop mv pieces
                  (tags @ [\<lparr>Name = pieceName i, Rule = r, Param = pieceParam i\<rparr>])
            | None \<Rightarrow>
                (case tagAliases mv (pieceName i) of
                   Some val \<Rightarrow> mustParseTags_loop mv pieces (tags @ val)
                 | None \<Rightarrow> Inl (UnknownTag (tagName mv) (pieceName i)))))"

text \<open>
  \<^verbatim>\<open>mustParseTags\<close>: a declaration found in the cache is answered from it, whatever
  the validator; otherwise it is parsed and, when parsing does not panic, stored.
\<close>

definition mustParseTags :: "Validator \<Rightarrow> string \<Rightarrow> vstate \<Rightarrow> panicv + (tag list \<times> vstate)" where
  "mustParseTags mv t st =
     (case tagCache st t of
        Some val \<Rightarrow> Inr (val, st)
      | None \<Rightarrow>
          (case mustParseTags_loop mv (splitUnescapedComma t) [] of
             Inl p \<Rightarrow> Inl p
           | Inr tags \<Rightarrow> Inr (tags, st\<lparr>tagCache := (tagCache st)(t \<mapsto> tags)\<rparr>)))"


section \<open>Validating one value against a declaration\<close>

text \<open>
  The loop of \<^verbatim>\<open>singleField\<close> over the parsed tags. Every checker invocation is
  logged. A checker that returns false ends the loop: with nil when the rule has no
  error function, with the \<^verbatim>\<open>FieldError\<close> otherwise.
\<close>

fun singleField_loop ::
  "tag list \<Rightarrow> gvalue \<Rightarrow> string \<Rightarrow> vstate \<Rightarrow> panicv + (FieldError option \<times> vstate)" where
  "singleField_loop [] v field st = Inr (None, st)"
| "singleField_loop (t # tags) v field st =
     (case Checker (Rule t) v (Param t) of
        Inl p \<Rightarrow> Inl p
      | Inr ok \<Rightarrow>
          (let st' = st\<lparr>calls := calls st @ [(Name t, v, Param t)]\<rparr>
           in if \<not> ok then
                (case ErrorFunc (Rule t) of
                   None \<Rightarrow> Inr (None, st')
                 | Some errorFunc \<Rightarrow>
                     Inr (Some \<lparr>Field = field,
                                Description = errorFunc field v (Name t, Param t)\<rparr>, st'))
              else singleField_loop tags v field st'))"

definition singleField ::
  "Validator \<Rightarrow> gvalue \<Rightarrow> string \<Rightarrow> string \<Rightarrow> vstate \<Rightarrow> panicv + (FieldError option \<times> vstate)" where
  "singleField mv v field tg st =
     (case mustParseTags mv tg st of
        Inl p \<Rightarrow> Inl p
      | Inr (tags, st') \<Rightarrow> singleField_loop tags v field st')"

text \<open>
  \<^verbatim>\<open>Validator.Field\<close>: the declaration \<^verbatim>\<open>-\<close> returns nil at once; a non-nil pointer
  is followed; any other value, the nil interface included, goes to \<^verbatim>\<open>singleField\<close>.
\<close>

function Validator_Field ::
  "Validator \<Rightarrow> gvalue \<Rightarrow> string \<Rightarrow> string \<Rightarrow> vstate \<Rightarrow> panicv + (FieldError option \<times> vstate)" where
  "Validator_Field mv val field tags st =
     (if tags = ''-'' then Inr (None, st)
      else (case ValueOf val of
              VPtr (Some x) \<Rightarrow> Validator_Field mv x field tags st
            | VInvalid \<Rightarrow> singleField mv VInvalid field tags st
            | v \<Rightarrow> singleField mv v field tags st))"
  by pat_completeness auto

lemma size_ValueOf: "size (ValueOf v) \<le> size v"
  by (induction v rule: ValueOf.induct) auto

termination Validator_Field
proof (relation "measure (\<lambda>(mv, val, field, tags, st). size val)")
  show "wf (measure (\<lambda>(mv, val, field, tags, st). size val))" by simp
next
  fix mv :: Validator and val field tags and st :: vstate and x7 x2
  assume "ValueOf val = VPtr x7" and "x7 = Some x2"
  then have "size x2 < size (ValueOf val)" by simp
  then have "size x2 < size val" using size_ValueOf [of val] by linarith
  then show "((mv, x2, field, tags, st), (mv, val, field, tags, st))
      \<in> measure (\<lambda>(mv, val, field, tags, st). size val)" by simp
qed

section \<open>Validating a struct\<close>

text \<open>
  \<^verbatim>\<open>unicode.IsUpper(rune(field[0]))\<close>: the first byte of the name read as a code
  point below 256; the upper-case letters there are A..Z and, in Latin-1, U+00C0..U+00D6
  and U+00D8..U+00DE. A field that passes this test is taken to be exported, so that
  \<^verbatim>\<open>f.Interface()\<close> succeeds on it.
\<close>

definition IsUpper :: "char \<Rightarrow> bool" where
  "IsUpper c =
     (let n = (of_char c :: nat)
      in (65 \<le> n \<and> n \<le> 90) \<or> (192 \<le> n \<and> n \<le> 214) \<or> (216 \<le> n \<and> n \<le> 222))"

text \<open>
  \<^verbatim>\<open>string(rune(i))\<close>: the index is cut to a signed 32-bit \<^verbatim>\<open>rune\<close> and the
  string is the UTF-8 encoding of that code point, or of U+FFFD when it is not a valid
  one. It is not the decimal numeral of \<open>i\<close>.
\<close>

definition rune :: "nat \<Rightarrow> int" where
  "rune i = sint (word_of_nat i :: 32 word)"

definition string_of_rune :: "int \<Rightarrow> string" where
  "string_of_rune r =
     (if r < 0 \<or> 0x10FFFF < r \<or> (0xD800 \<le> r \<and> r \<le> 0xDFFF)
        then [char_of (0xEF :: nat), char_of (0xBF :: nat), char_of (0xBD :: nat)]
      else if r < 0x80 then [char_of (nat r)]
      else if r < 0x800
        then [char_of (0xC0 + nat r div 64), char_of (0x80 + nat r mod 64)]
      else if r < 0x10000
        then [char_of (0xE0 + nat r div 4096), char_of (0x80 + nat r div 64 mod 64),
              char_of (0x80 + nat r mod 64)]
      else [char_of (0xF0 + nat r div 262144), char_of (0x80 + nat r div 4096 mod 64),
            char_of (0x80 + nat r div 64 mod 64), char_of (0x80 + nat r mod 64)])"

text \<open>
  The end of \<^verbatim>\<open>validateStruct\<close>: no errors give nil; without full error path, or
  under no field name, the errors are returned as they are; otherwise every field is
  prefixed with the field name and a dot.
\<close>

definition prefixFieldName :: "Validator \<Rightarrow> string \<Rightarrow> FieldErrors \<Rightarrow> FieldErrors" where
  "prefixFieldName mv fieldName errs =
     (if length errs = 0 then []
      else if \<not> fullErrorPath mv \<or> fieldName = [] then errs
      else map (\<lambda>err. \<lparr>Field = fieldName @ ''.'' @ Field err,
                        Description = Description err\<rparr>) errs)"

definition optErr :: "FieldError option \<Rightarrow> FieldErrors" where
  "optErr err = (case err of None \<Rightarrow> [] | Some fieldError \<Rightarrow> [fieldError])"

text \<open>
  The traversal. \<open>F\<close> is \<^verbatim>\<open>fmt\<close>'s rendering of a map key under the verb
  \<^verbatim>\<open>%+v\<close>, a parameter of the model. Each loop returns the errors of its remaining
  iterations, in order; the source appends them to \<^verbatim>\<open>result\<close> one iteration after
  the other, which gives the same list.
  \<^item> \<open>validateStruct\<close>: a nil pointer is valid; a pointer is followed, and the errors
    that come back go through the prefixing again; a struct has its fields validated;
    for any other value \<^verbatim>\<open>sv.NumField()\<close> panics. A \<^verbatim>\<open>time.Time\<close> has three
    fields, all unexported, so its loop skips each and returns nil.
  \<^item> \<open>validateStructFields\<close>: the loop over the fields of a struct.
  \<^item> \<open>deepValidateTaglessField\<close>, \<open>validateCollection\<close> (with the running index)
    and \<open>validateMap\<close> (over the entries in key order).
\<close>

function (sequential)
  validateStruct ::
    "(gvalue \<Rightarrow> string) \<Rightarrow> Validator \<Rightarrow> gvalue \<Rightarrow> string \<Rightarrow> vstate
       \<Rightarrow> panicv + (FieldErrors \<times> vstate)"
and validateStructFields ::
    "(gvalue \<Rightarrow> string) \<Rightarrow> Validator \<Rightarrow> gfield list \<Rightarrow> vstate
       \<Rightarrow> panicv + (FieldErrors \<times> vstate)"
and deepValidateTaglessField ::
    "(gvalue \<Rightarrow> string) \<Rightarrow> Validator \<Rightarrow> gvalue \<Rightarrow> string \<Rightarrow> vstate
       \<Rightarrow> panicv + (FieldErrors \<times> vstate)"
and validateCollection ::
    "(gvalue \<Rightarrow> string) \<Rightarrow> Validator \<Rightarrow> gvalue list \<Rightarrow> nat \<Rightarrow> string \<Rightarrow> vstate
       \<Rightarrow> panicv + (FieldErrors \<times> vstate)"
and validateMap ::
    "(gvalue \<Rightarrow> string) \<Rightarrow> Validator \<Rightarrow> (gvalue \<times> gvalue) list \<Rightarrow> string \<Rightarrow> vstate
       \<Rightarrow> panicv + (FieldErrors \<times> vstate)"
where
  "validateStruct F mv value fieldName st =
     (case ValueOf value of
        VPtr None \<Rightarrow> Inr ([], st)
      | VPtr (Some x) \<Rightarrow>
          (case validateStruct F mv x fieldName st of
             Inl p \<Rightarrow> Inl p
           | Inr (errs, st') \<Rightarrow> Inr (prefixFieldName mv fieldName errs, st'))
      | VStruct fs \<Rightarrow>
          (case validateStructFields F mv fs st of
             Inl p \<Rightarrow> Inl p
           | Inr (errs, st') \<Rightarrow> Inr (prefixFieldName mv fieldName errs, st'))
      | VTime t \<Rightarrow> Inr ([], st)
      | _ \<Rightarrow> Inl (Panic ''reflect: call of reflect.Value.NumField on non-struct Value''))"
| "validateStructFields F mv [] st = Inr ([], st)"
| "validateStructFields F mv (f # fs) st =
     (case fname f of
        [] \<Rightarrow> Inl (Panic ''index out of range'')
      | c # cs \<Rightarrow>
          if \<not> IsUpper c then validateStructFields F mv fs st
          else if Tag_Get (ftag f) (tagName mv) = ''-'' then validateStructFields F mv fs st
          else
            (case (if Tag_Get (ftag f) (tagName mv) \<noteq> []
                   then Validator_Field mv (derefPtrs (fval f)) (fname f)
                          (Tag_Get (ftag f) (tagName mv)) st
                   else Inr (None, st)) of
               Inl p \<Rightarrow> Inl p
             | Inr (err, st1) \<Rightarrow>
                 (case deepValidateTaglessField F mv (derefPtrs (fval f)) (fname f) st1 of
                    Inl p \<Rightarrow> Inl p
                  | Inr (errs, st2) \<Rightarrow>
                      (case validateStructFields F mv fs st2 of
                         Inl p \<Rightarrow> Inl p
                       | Inr (rest, st3) \<Rightarrow> Inr (optErr err @ errs @ rest, st3)))))"
| "deepValidateTaglessField F mv value field st =
     (case value of
        VIface None \<Rightarrow> Inr ([], st)
      | VPtr None \<Rightarrow> Inr ([], st)
      | VIface (Some x) \<Rightarrow> validateStruct F mv value field st
      | VPtr (Some x) \<Rightarrow> validateStruct F mv value field st
      | VStruct fs \<Rightarrow> validateStruct F mv value field st
      | VTime t \<Rightarrow> validateStruct F mv value field st
      | VSlice xs \<Rightarrow> validateCollection F mv xs 0 field st
      | VArray xs \<Rightarrow> validateCollection F mv xs 0 field st
      | VMap kvs \<Rightarrow> validateMap F mv kvs field st
      | _ \<Rightarrow> Inr ([], st))"
| "validateCollection F mv [] i field st = Inr ([], st)"
| "validateCollection F mv (x # xs) i field st =
     (case deepValidateTaglessField F mv x
             (field @ ''['' @ string_of_rune (rune i) @ '']'') st of
        Inl p \<Rightarrow> Inl p
      | Inr (errs, st1) \<Rightarrow>
          (case validateCollection F mv xs (Suc i) field st1 of
             Inl p \<Rightarrow> Inl p
           | Inr (rest, st2) \<Rightarrow> Inr (errs @ rest, st2)))"
| "validateMap F mv [] field st = Inr ([], st)"
| "validateMap F mv (kv # kvs) field st =
     (case deepValidateTaglessField F mv (fst kv)
             (field @ ''['' @ F (ValueOf (fst kv)) @ ''](key)'') st of
        Inl p \<Rightarrow> Inl p
      | Inr (errs1, st1) \<Rightarrow>
          (case deepValidateTaglessField F mv (snd kv)
                  (field @ ''['' @ F (ValueOf (fst kv)) @ ''](value)'') st1 of
             Inl p \<Rightarrow> Inl p
           | Inr (errs2, st2) \<Rightarrow>
               (case validateMap F mv kvs field st2 of
                  Inl p \<Rightarrow> Inl p
                | Inr (rest, st3) \<Rightarrow> Inr (errs1 @ errs2 @ rest, st3))))"
  by pat_completeness auto

lemma size_derefPtrs: "size (derefPtrs v) \<le> size v"
  by (induction v rule: derefPtrs.induct) auto

termination validateStruct
  apply (relation "measures
    [\<lambda>a. case a of
        Inl (Inl (F, mv, v, fn, st)) \<Rightarrow> size v
      | Inl (Inr (F, mv, fs, st)) \<Rightarrow> size_list size fs
      | Inr (Inl (F, mv, v, fn, st)) \<Rightarrow> size v
      | Inr (Inr (Inl (F, mv, xs, i, fn, st))) \<Rightarrow> size_list size xs
      | Inr (Inr (Inr (F, mv, kvs, fn, st))) \<Rightarrow> size_list (size_prod size size) kvs,
     \<lambda>a. case a of Inr (Inl x) \<Rightarrow> 1 | _ \<Rightarrow> 0]")
  apply simp_all
  subgoal for v x7 x2 using size_ValueOf [of v] by simp
  subgoal for v fs using size_ValueOf [of v] by simp
  subgoal for mv f fs using size_derefPtrs [of "fval f"] by (cases f) simp
  subgoal for kv kvs by (cases kv) simp
  subgoal for F mv kv kvs by (cases kv) simp
  done

declare validateStruct.simps [simp del] deepValidateTaglessField.simps [simp del]

definition Struct :: "(gvalue \<Rightarrow> string) \<Rightarrow> Validator \<Rightarrow> gvalue \<Rightarrow> vstate \<Rightarrow> panicv + (gerror option \<times> vstate)" where
  "Struct F mv v st =
     (case validateStruct F mv v [] st of
        Inl p \<Rightarrow> Inl p
      | Inr (errs, st') \<Rightarrow>
          Inr (if length errs > 0 then Some (IsFieldErrors errs) else None, st'))"


section \<open>The standard rules that the properties below are about (rules.go)\<close>

text \<open>
  \<^verbatim>\<open>st.Float() != 0\<close> on the binary64 bits: only the two zeros, whose bits below the
  sign bit are all clear, compare equal to 0 (a NaN compares unequal to everything).
\<close>

definition Float_ne_zero :: "64 word \<Rightarrow> bool" where
  "Float_ne_zero w = (take_bit 63 w \<noteq> 0)"

text \<open>\<^verbatim>\<open>Required\<close>, case by case on the kind, in the order of the source.\<close>

definition Required :: "gvalue \<Rightarrow> string \<Rightarrow> panicv + bool" where
  "Required v param =
     Inr (case ValueOf v of
            VString s \<Rightarrow> length s \<noteq> 0
          | VPtr p \<Rightarrow> p \<noteq> None
          | VIface p \<Rightarrow> p \<noteq> None
          | VSlice xs \<Rightarrow> length xs \<noteq> 0
          | VMap kvs \<Rightarrow> length kvs \<noteq> 0
          | VArray xs \<Rightarrow> length xs \<noteq> 0
          | VInt i \<Rightarrow> i \<noteq> 0
          | VUint n \<Rightarrow> n \<noteq> 0
          | VFloat w \<Rightarrow> Float_ne_zero w
          | VBool b \<Rightarrow> b
          | VInvalid \<Rightarrow> False
          | VStruct fs \<Rightarrow> True
          | VTime t \<Rightarrow> True
          | VOther \<Rightarrow> False)"

definition RequiredErr :: "string \<Rightarrow> gvalue \<Rightarrow> string \<times> string \<Rightarrow> string" where
  "RequiredErr field v t = field @ '' is required''"

definition Optional :: "gvalue \<Rightarrow> string \<Rightarrow> panicv + bool" where
  "Optional v param = Required v []"

definition requiredRule :: ValidationRule where
  "requiredRule = \<lparr>Tag = ''required'', Checker = Required, ErrorFunc = Some RequiredErr\<rparr>"

definition optionalRule :: ValidationRule where
  "optionalRule = \<lparr>Tag = ''optional'', Checker = Optional, ErrorFunc = None\<rparr>"

text \<open>
  Dates. An instant is a number of nanoseconds since the Unix epoch; \<^verbatim>\<open>After\<close>,
  \<^verbatim>\<open>Before\<close> and \<^verbatim>\<open>Equal\<close> compare instants. Two things come from outside the
  package and are parameters: \<open>now\<close>, the instant \<^verbatim>\<open>time.Now().UTC()\<close> returns, and
  \<open>Parse\<close>, which is \<^verbatim>\<open>time.Parse("2006-01-02", s)\<close> (\<open>None\<close> for its error).
\<close>

definition nsPerDay :: int where
  "nsPerDay = 86400 * 1000000000"

text \<open>\<^verbatim>\<open>time.Date(d.Year(), d.Month(), d.Day(), 0, 0, 0, 0, d.Location())\<close> in UTC.\<close>

definition startOfDay :: "int \<Rightarrow> int" where
  "startOfDay d = d - d mod nsPerDay"

text \<open>
  \<^verbatim>\<open>parseDate\<close>: the token \<^verbatim>\<open>now\<close> gives the current instant as it is, time of day
  included; a date gives the start of its day; anything else panics.
\<close>

definition parseDate :: "int \<Rightarrow> (string \<Rightarrow> int option) \<Rightarrow> string \<Rightarrow> panicv + int" where
  "parseDate now Parse date =
     (if date = ''now'' then Inr now
      else (case Parse date of
              None \<Rightarrow> Inl (Panic ''parsing time: cannot parse'')
            | Some d \<Rightarrow> Inr (startOfDay d)))"

text \<open>
  \<^verbatim>\<open>MinDate\<close> and \<^verbatim>\<open>MaxDate\<close>. A nil pointer is valid; one pointer level is
  followed for the kind switch (\<open>v0\<close> is the value as passed, the scrutinee of the
  second case is \<^verbatim>\<open>st\<close>). A string is parsed and compared; for a struct the type
  assertion \<^verbatim>\<open>v.(time.Time)\<close> is on the value as it was passed, so it fails behind a
  pointer; any other kind panics.
\<close>

definition MinDate :: "int \<Rightarrow> (string \<Rightarrow> int option) \<Rightarrow> gvalue \<Rightarrow> string \<Rightarrow> panicv + bool" where
  "MinDate now Parse v param =
     (case ValueOf v of
        VPtr None \<Rightarrow> Inr True
      | v0 \<Rightarrow>
          (case (case v0 of VPtr (Some x) \<Rightarrow> x | _ \<Rightarrow> v0) of
             VString s \<Rightarrow>
               if s = [] then Inr True
               else (case Parse s of
                       None \<Rightarrow> Inr False
                     | Some t \<Rightarrow>
                         (case parseDate now Parse param of
                            Inl p \<Rightarrow> Inl p
                          | Inr minDate \<Rightarrow> Inr (t > minDate \<or> t = minDate)))
           | VTime t' \<Rightarrow>
               (case v0 of
                  VTime t \<Rightarrow>
                    (case parseDate now Parse param of
                       Inl p \<Rightarrow> Inl p
                     | Inr minDate \<Rightarrow> Inr (t > minDate \<or> t = minDate))
                | _ \<Rightarrow> Inr False)
           | VStruct fs \<Rightarrow> Inr False
           | _ \<Rightarrow> Inl (Panic ''invalid type for mindate tag'')))"

definition MaxDate :: "int \<Rightarrow> (string \<Rightarrow> int option) \<Rightarrow> gvalue \<Rightarrow> string \<Rightarrow> panicv + bool" where
  "MaxDate now Parse v param =
     (case ValueOf v of
        VPtr None \<Rightarrow> Inr True
      | v0 \<Rightarrow>
          (case (case v0 of VPtr (Some x) \<Rightarrow> x | _ \<Rightarrow> v0) of
             VString s \<Rightarrow>
               if s = [] then Inr True
               else (case Parse s of
                       None \<Rightarrow> Inr False
                     | Some t \<Rightarrow>
                         (case parseDate now Parse param of
                            Inl p \<Rightarrow> Inl p
                          | Inr maxDate \<Rightarrow> Inr (t < maxDate \<or> t = maxDate)))
           | VTime t' \<Rightarrow>
               (case v0 of
                  VTime t \<Rightarrow>
                    (case parseDate now Parse param of
                       Inl p \<Rightarrow> Inl p
                     | Inr maxDate \<Rightarrow> Inr (t < maxDate \<or> t = maxDate))
                | _ \<Rightarrow> Inr False)
           | VStruct fs \<Rightarrow> Inr False
           | _ \<Rightarrow> Inl (Panic ''invalid type for maxdate tag'')))"

section \<open>Notions used to state the properties\<close>

text \<open>
  The zero, empty or absent form of a value, in the words of the specification: empty
  text, a nil pointer or interface, a sequence or mapping of length zero, the numeric
  zero (for a float, either zero), boolean false, and the value of no concrete kind. A
  present record is never in that form. The specification names no such form for the
  remaining kinds.
\<close>

fun zeroForm :: "gvalue \<Rightarrow> bool" where
  "zeroForm (VString s) = (s = [])"
| "zeroForm (VPtr p) = (p = None)"
| "zeroForm (VIface p) = (p = None)"
| "zeroForm (VSlice xs) = (length xs = 0)"
| "zeroForm (VMap kvs) = (length kvs = 0)"
| "zeroForm (VArray xs) = (length xs = 0)"
| "zeroForm (VInt i) = (i = 0)"
| "zeroForm (VUint n) = (n = 0)"
| "zeroForm (VFloat w) = (w = 0 \<or> w = 0x8000000000000000)"
| "zeroForm (VBool b) = (\<not> b)"
| "zeroForm VInvalid = True"
| "zeroForm (VStruct fs) = False"
| "zeroForm (VTime t) = False"
| "zeroForm VOther = False"




text \<open>
  For concrete runs: a validator with the rules \<^verbatim>\<open>required\<close> and \<^verbatim>\<open>optional\<close> of
  \<^verbatim>\<open>StandardRules\<close>, the same with full error path, and the state of a fresh process.
\<close>

definition exampleValidator :: Validator where
  "exampleValidator = AddRule (AddRule NewValidator requiredRule) optionalRule"

definition fullPathValidator :: Validator where
  "fullPathValidator = WithFullErrorPath exampleValidator"

definition emptyState :: vstate where
  "emptyState = \<lparr>tagCache = Map.empty, calls = []\<rparr>"

text \<open>
  Values of the package's tests (\<^verbatim>\<open>validator_test.go\<close>): the struct tag
  \<^verbatim>\<open>validate:"required"\<close>, \<^verbatim>\<open>simpleStruct{}\<close> and \<^verbatim>\<open>complexStruct{}\<close>, each
  with its fields at their zero values.
\<close>

definition req :: "(string \<times> string) list" where
  "req = [(''validate'', ''required'')]"

definition simpleStruct :: gvalue where
  "simpleStruct = VStruct [GField ''A'' req (VInt 0)]"

definition complexStruct :: gvalue where
  "complexStruct = VStruct
     [GField ''A'' req (VInt 0),
      GField ''Sub'' []
        (VStruct [GField ''A'' req (VInt 0), GField ''B'' [] (VString []),
                  GField ''C'' req (VFloat 0), GField ''D'' req (VPtr None),
                  GField ''Sub2'' [] (VStruct [GField ''A'' req (VInt 0)])])]"

text \<open>What a run shows: the errors and the log of checker invocations.\<close>

definition errsAndCalls ::
  "panicv + (FieldErrors \<times> vstate)
     \<Rightarrow> panicv + (FieldErrors \<times> (string \<times> gvalue \<times> string) list)" where
  "errsAndCalls r = map_sum id (\<lambda>(errs, st). (errs, calls st)) r"

text \<open>
  Two runs agree up to the field paths: the same panic, or the same state and the same
  descriptions in the same order.
\<close>

definition sameDescriptions ::
  "panicv + (FieldErrors \<times> vstate) \<Rightarrow> panicv + (FieldErrors \<times> vstate) \<Rightarrow> bool" where
  "sameDescriptions r r' =
     (case r of
        Inl p \<Rightarrow> r' = Inl p
      | Inr (errs, st) \<Rightarrow>
          (case r' of
             Inl p \<Rightarrow> False
           | Inr (errs', st') \<Rightarrow> st' = st \<and> map Description errs' = map Description errs))"


section \<open>Properties of the result model\<close>

lemma FieldErrors_Error_nonempty: "FieldErrors_Error ve \<noteq> []"
  by (simp add: FieldErrors_Error_def)

text \<open>
  C10. For every \<^verbatim>\<open>ValidationResult\<close>, hence after any sequence of
  \<^verbatim>\<open>NewResult\<close>, \<^verbatim>\<open>AddError\<close> and \<^verbatim>\<open>AddErrors\<close> calls, the three observers
  agree: \<^verbatim>\<open>IsValid()\<close> is true exactly when the accumulated errors are empty,
  \<^verbatim>\<open>Err()\<close> is nil exactly when \<^verbatim>\<open>IsValid()\<close> is true and is the accumulated
  \<^verbatim>\<open>FieldErrors\<close> otherwise, and \<^verbatim>\<open>Error()\<close> is the empty string exactly when
  \<^verbatim>\<open>IsValid()\<close> is true.
\<close>

theorem ValidationResult_observers_agree:
  "IsValid r = (Errors r = [])
   \<and> (Err r = None) = IsValid r
   \<and> Err r = (if IsValid r then None else Some (IsFieldErrors (Errors r)))
   \<and> (Error r = []) = IsValid r"
  by (simp add: IsValid_def Err_def Error_def FieldErrors_Error_nonempty)

theorem ValidationResult_observers_agree_witness:
  "IsValid (AddErrors (NewResult [None, Some (IsFieldError \<lparr>Field = ''A'', Description = ''A is required''\<rparr>)])
              [Some (IsFieldErrors [\<lparr>Field = ''B'', Description = ''B is required''\<rparr>])]) = False
   \<and> Error (AddErrors (NewResult [None, Some (IsFieldError \<lparr>Field = ''A'', Description = ''A is required''\<rparr>)])
              [Some (IsFieldErrors [\<lparr>Field = ''B'', Description = ''B is required''\<rparr>])])
       = ''fields are invalid: A, B''
   \<and> Err (NewResult [None, None]) = None"
  using ValidationResult_observers_agree
    [of "AddErrors (NewResult [None, Some (IsFieldError \<lparr>Field = ''A'', Description = ''A is required''\<rparr>)])
              [Some (IsFieldErrors [\<lparr>Field = ''B'', Description = ''B is required''\<rparr>])]"]
    ValidationResult_observers_agree [of "NewResult [None, None]"]
  by (simp add: NewResult_def AddError_def Error_def IsValid_def FieldErrors_Error_def)







section \<open>Properties of the rules and of the evaluation of one value\<close>

lemma Float_ne_zero_iff: "Float_ne_zero w = (w \<noteq> 0 \<and> w \<noteq> 0x8000000000000000)"
proof -
  have lt: "unat w < 2 ^ 64" using unsigned_less [of w] by simp
  have "(take_bit 63 w = 0) = (unat (take_bit 63 w) = 0)" by (simp add: unat_eq_0)
  also have "\<dots> = (unat w mod 2 ^ 63 = 0)" by (simp only: unsigned_take_bit_eq, simp only: take_bit_eq_mod)
  also have "\<dots> = (unat w = 0 \<or> unat w = 2 ^ 63)" using lt by auto
  also have "\<dots> = (w = 0 \<or> w = 0x8000000000000000)"
    using word_unat_eq_iff [of w "0x8000000000000000"] by (simp add: unat_eq_0)
  finally show ?thesis by (simp add: Float_ne_zero_def)
qed

lemma ValueOf_not_VIface: "ValueOf v \<noteq> VIface p"
  by (induction v rule: ValueOf.induct) auto

text \<open>
  C2. For every value of a supported kind (any kind but Chan, Func, Complex and
  UnsafePointer), the \<^verbatim>\<open>required\<close> checker returns false exactly on the zero,
  empty or absent form of the kind of the value it is given, and true otherwise. A
  struct passes whatever its fields hold; the value of no concrete kind (the nil
  interface) fails.
\<close>

theorem Required_false_exactly_on_zero_form:
  "(ValueOf v \<noteq> VOther \<longrightarrow> Required v param = Inr (\<not> zeroForm (ValueOf v)))
   \<and> Required (VStruct fs) param = Inr True
   \<and> Required VInvalid param = Inr False
   \<and> Required (VIface None) param = Inr False"
  by (cases "ValueOf v") (simp_all add: Required_def Float_ne_zero_iff)

theorem Required_false_exactly_on_zero_form_witness:
  "Required (VString []) [] = Inr False \<and> Required (VString ''a'') [] = Inr True
   \<and> Required (VFloat 0x8000000000000000) [] = Inr False
   \<and> Required (VIface (Some (VInt 0))) [] = Inr False
   \<and> Required (VPtr None) [] = Inr False
   \<and> Required (VStruct []) [] = Inr True"
  using Required_false_exactly_on_zero_form [of "VString []" "[]"]
    Required_false_exactly_on_zero_form [of "VString ''a''" "[]"]
    Required_false_exactly_on_zero_form [of "VFloat 0x8000000000000000" "[]"]
    Required_false_exactly_on_zero_form [of "VIface (Some (VInt 0))" "[]"]
    Required_false_exactly_on_zero_form [of "VPtr None" "[]" "[]"]
  by simp








section \<open>Properties of the traversal\<close>

lemma validateStructFields_skips_dash:
  "fname f \<noteq> [] \<Longrightarrow> Tag_Get (ftag f) (tagName mv) = ''-'' \<Longrightarrow>
   validateStructFields F mv (fs1 @ f # fs2) st = validateStructFields F mv (fs1 @ fs2) st"
proof (induction fs1 arbitrary: st)
  case Nil
  then show ?case by (simp split: list.splits)
next
  case (Cons g fs1)
  then have IH: "\<And>s. validateStructFields F mv (fs1 @ f # fs2) s =
      validateStructFields F mv (fs1 @ fs2) s" by simp
  show ?case by (simp add: IH cong: list.case_cong sum.case_cong prod.case_cong if_cong)
qed

text \<open>
  C3. A struct field whose declaration is \<^verbatim>\<open>-\<close> leaves no trace in the validation
  of its struct: the result, with the state (so the cache and the log of checker
  invocations), is that of the struct without the field, whatever the field holds; no
  checker runs on it and nothing inside it is visited. And \<^verbatim>\<open>Field\<close> with the
  declaration \<^verbatim>\<open>-\<close> returns nil for every value, the state unchanged.
\<close>

theorem dash_declaration_disables_validation:
  "(fname f \<noteq> [] \<and> Tag_Get (ftag f) (tagName mv) = ''-'' \<longrightarrow>
      validateStructFields F mv (fs1 @ f # fs2) st = validateStructFields F mv (fs1 @ fs2) st
      \<and> validateStruct F mv (VStruct (fs1 @ f # fs2)) fieldName st =
          validateStruct F mv (VStruct (fs1 @ fs2)) fieldName st
      \<and> Struct F mv (VStruct (fs1 @ f # fs2)) st = Struct F mv (VStruct (fs1 @ fs2)) st)
   \<and> Validator_Field mv v name ''-'' st = Inr (None, st)"
proof (intro conjI impI)
  assume h: "fname f \<noteq> [] \<and> Tag_Get (ftag f) (tagName mv) = ''-''"
  then show e: "validateStructFields F mv (fs1 @ f # fs2) st =
      validateStructFields F mv (fs1 @ fs2) st"
    using validateStructFields_skips_dash [of f mv F fs1 fs2 st] by simp
  from h have e': "\<And>s. validateStructFields F mv (fs1 @ f # fs2) s =
      validateStructFields F mv (fs1 @ fs2) s"
    using validateStructFields_skips_dash [of f mv F fs1 fs2] by simp
  show "validateStruct F mv (VStruct (fs1 @ f # fs2)) fieldName st =
      validateStruct F mv (VStruct (fs1 @ fs2)) fieldName st"
    by (simp add: validateStruct.simps e')
  show "Struct F mv (VStruct (fs1 @ f # fs2)) st = Struct F mv (VStruct (fs1 @ fs2)) st"
    by (simp add: Struct_def validateStruct.simps e')
next
  show "Validator_Field mv v name ''-'' st = Inr (None, st)" by simp
qed


lemma eval_A_only:
  "errsAndCalls (validateStructFields (\<lambda>v. []) exampleValidator
      [GField ''A'' req (VInt 0)] emptyState) =
   Inr ([\<lparr>Field = ''A'', Description = ''A is required''\<rparr>], [(''required'', VInt 0, [])])"
  by code_simp

theorem dash_declaration_disables_validation_witness:
  "errsAndCalls (validateStructFields (\<lambda>v. []) exampleValidator
      [GField ''A'' req (VInt 0), GField ''Skip'' [(''validate'', ''-'')] complexStruct]
      emptyState) =
   Inr ([\<lparr>Field = ''A'', Description = ''A is required''\<rparr>], [(''required'', VInt 0, [])])"
proof -
  have "validateStructFields (\<lambda>v. []) exampleValidator
      ([GField ''A'' req (VInt 0)] @ GField ''Skip'' [(''validate'', ''-'')] complexStruct # [])
      emptyState =
    validateStructFields (\<lambda>v. []) exampleValidator ([GField ''A'' req (VInt 0)] @ []) emptyState"
    using dash_declaration_disables_validation
      [of "GField ''Skip'' [(''validate'', ''-'')] complexStruct" exampleValidator
          "\<lambda>v. []" "[GField ''A'' req (VInt 0)]" "[]" emptyState]
    by (simp add: Tag_Get_def exampleValidator_def AddRule_def NewValidator_def)
  then show ?thesis using eval_A_only by simp
qed





text \<open>
  C4 at a concrete input: a validator with full error path, and a struct with the
  untagged field \<^verbatim>\<open>Items []simpleStruct\<close> holding two zero elements. The paths of the
  elements' errors carry the bytes 0 and 1 between the brackets, not the numerals
  \<^verbatim>\<open>0\<close> and \<^verbatim>\<open>1\<close>; the index 12 is rendered as the one byte 12.
\<close>

theorem collection_index_is_rune_not_decimal:
  "map_sum id fst (validateStruct (\<lambda>v. []) fullPathValidator
      (VStruct [GField ''Items'' [] (VSlice [simpleStruct, simpleStruct])]) [] emptyState) =
   Inr [\<lparr>Field = ''Items['' @ [CHR 0x00] @ ''].A'', Description = ''A is required''\<rparr>,
        \<lparr>Field = ''Items['' @ [CHR 0x01] @ ''].A'', Description = ''A is required''\<rparr>]
   \<and> string_of_rune (rune 12) = [CHR 0x0C]"
  by code_simp

text \<open>
  C7 at a concrete input: a validator with full error path, and a struct with the
  untagged field \<^verbatim>\<open>X interface{}\<close> holding \<^verbatim>\<open>&simpleStruct{}\<close>. The failure of
  \<^verbatim>\<open>A\<close> under \<^verbatim>\<open>X\<close> is reported as \<^verbatim>\<open>X.X.A\<close>: the parent's name is prefixed
  once by the call on the struct and once more by the call on the pointer to it.
\<close>

theorem pointer_under_named_parent_is_prefixed_twice:
  "map_sum id fst (validateStruct (\<lambda>v. []) fullPathValidator
      (VStruct [GField ''X'' [] (VIface (Some (VPtr (Some simpleStruct))))]) [] emptyState) =
   Inr [\<lparr>Field = ''X.X.A'', Description = ''A is required''\<rparr>]"
  by code_simp

lemma complexStruct_full_path:
  "map_sum id (\<lambda>(errs, st). map Field errs) (validateStruct (\<lambda>v. []) fullPathValidator
      (VPtr (Some complexStruct)) [] emptyState) =
   Inr [''A'', ''Sub.A'', ''Sub.C'', ''Sub.D'', ''Sub.Sub2.A'']"
  by code_simp

lemma complexStruct_default:
  "map_sum id (\<lambda>(errs, st). map Field errs) (validateStruct (\<lambda>v. []) exampleValidator
      (VPtr (Some complexStruct)) [] emptyState) =
   Inr [''A'', ''A'', ''C'', ''D'', ''A'']"
  by code_simp

text \<open>
  What holds of the field paths in the default mode, at every depth: the field name
  under which a value is traversed has no effect on the result. (The loop over the
  fields of a struct takes no field name; its statement is there for the induction.)
\<close>

lemma prefixFieldName_default: "\<not> fullErrorPath mv \<Longrightarrow> prefixFieldName mv n errs = errs"
  by (simp add: prefixFieldName_def)

lemma default_mode_ignores_field_name:
  shows "\<not> fullErrorPath mv \<longrightarrow> (\<forall>n'. validateStruct F mv v n st = validateStruct F mv v n' st)"
    and "validateStructFields F mv fs st = validateStructFields F mv fs st"
    and "\<not> fullErrorPath mv \<longrightarrow> (\<forall>n'. deepValidateTaglessField F mv v n st = deepValidateTaglessField F mv v n' st)"
    and "\<not> fullErrorPath mv \<longrightarrow> (\<forall>n'. validateCollection F mv xs i n st = validateCollection F mv xs i n' st)"
    and "\<not> fullErrorPath mv \<longrightarrow> (\<forall>n'. validateMap F mv kvs n st = validateMap F mv kvs n' st)"
proof (induction F mv v n st and F mv fs st and F mv v n st and F mv xs i n st and F mv kvs n st
    rule: validateStruct_validateStructFields_deepValidateTaglessField_validateCollection_validateMap.induct)
  case (1 F mv "value" fieldName st)
  show ?case
  proof (intro impI allI)
    fix n'
    assume d: "\<not> fullErrorPath mv"
    show "validateStruct F mv value fieldName st = validateStruct F mv value n' st"
    proof (cases "ValueOf value")
      case (VPtr p)
      show ?thesis
      proof (cases p)
        case None
        with VPtr show ?thesis by (simp add: validateStruct.simps [of F mv "value"])
      next
        case (Some x)
        with VPtr 1 d have "validateStruct F mv x fieldName st = validateStruct F mv x n' st"
          by simp
        with VPtr Some d show ?thesis
          by (simp add: validateStruct.simps [of F mv "value"] prefixFieldName_default
              cong: sum.case_cong prod.case_cong)
      qed
    qed (simp_all add: validateStruct.simps [of F mv "value"] prefixFieldName_default d
          cong: sum.case_cong prod.case_cong)
  qed
next
  case (2 F mv st)
  show ?case by simp
next
  case (3 F mv f fs st)
  show ?case by simp
next
  case (4 F mv "value" field st)
  show ?case
  proof (intro impI allI)
    fix n'
    assume d: "\<not> fullErrorPath mv"
    have vs: "\<And>p. value = VPtr (Some p) \<or> value = VIface (Some p) \<or> (\<exists>fs. value = VStruct fs)
        \<or> (\<exists>t. value = VTime t) \<Longrightarrow>
        validateStruct F mv value field st = validateStruct F mv value n' st"
      using 4(1,2,6,7) d by blast
    have vc: "\<And>xs. value = VSlice xs \<or> value = VArray xs \<Longrightarrow>
        validateCollection F mv xs 0 field st = validateCollection F mv xs 0 n' st"
      using 4(3,4) d by blast
    have vm: "\<And>kvs. value = VMap kvs \<Longrightarrow>
        validateMap F mv kvs field st = validateMap F mv kvs n' st"
      using 4(5) d by blast
    show "deepValidateTaglessField F mv value field st =
        deepValidateTaglessField F mv value n' st"
    proof (cases "value")
      case (VPtr p)
      then show ?thesis using vs [of "the p"]
        by (cases p) (simp_all add: deepValidateTaglessField.simps)
    next
      case (VIface p)
      then show ?thesis using vs [of "the p"]
        by (cases p) (simp_all add: deepValidateTaglessField.simps)
    next
      case (VStruct fs)
      then show ?thesis using vs [of undefined]
        by (simp add: deepValidateTaglessField.simps)
    next
      case (VTime t)
      then show ?thesis using vs [of undefined]
        by (simp add: deepValidateTaglessField.simps)
    next
      case (VSlice xs)
      then show ?thesis using vc [of xs]
        by (simp add: deepValidateTaglessField.simps)
    next
      case (VArray xs)
      then show ?thesis using vc [of xs]
        by (simp add: deepValidateTaglessField.simps)
    next
      case (VMap kvs)
      then show ?thesis using vm [of kvs]
        by (simp add: deepValidateTaglessField.simps)
    qed (simp_all add: deepValidateTaglessField.simps)
  qed
next
  case (5 F mv i field st)
  show ?case by simp
next
  case (6 F mv x xs i field st)
  show ?case
  proof (intro impI allI)
    fix n'
    assume d: "\<not> fullErrorPath mv"
    let ?p = "\<lambda>n. n @ ''['' @ string_of_rune (rune i) @ '']''"
    have a: "deepValidateTaglessField F mv x (?p field) st =
        deepValidateTaglessField F mv x (?p n') st"
      using 6(1) d by blast
    show "validateCollection F mv (x # xs) i field st = validateCollection F mv (x # xs) i n' st"
    proof (cases "deepValidateTaglessField F mv x (?p field) st")
      case (Inl p)
      moreover from Inl a have "deepValidateTaglessField F mv x (?p n') st = Inl p" by simp
      ultimately show ?thesis by simp
    next
      case (Inr r)
      obtain errs st1 where r: "r = (errs, st1)" by (cases r)
      have "validateCollection F mv xs (Suc i) field st1 =
          validateCollection F mv xs (Suc i) n' st1"
        using 6(2) [OF Inr [unfolded r] refl] d by blast
      moreover from Inr r a
      have "deepValidateTaglessField F mv x (?p n') st = Inr (errs, st1)" by simp
      moreover from Inr r
      have "deepValidateTaglessField F mv x (?p field) st = Inr (errs, st1)" by simp
      ultimately show ?thesis by simp
    qed
  qed
next
  case (7 F mv field st)
  show ?case by simp
next
  case (8 F mv kv kvs field st)
  show ?case
  proof (intro impI allI)
    fix n'
    assume d: "\<not> fullErrorPath mv"
    let ?k = "\<lambda>n. n @ ''['' @ F (ValueOf (fst kv)) @ ''](key)''"
    let ?v = "\<lambda>n. n @ ''['' @ F (ValueOf (fst kv)) @ ''](value)''"
    have a: "deepValidateTaglessField F mv (fst kv) (?k field) st =
        deepValidateTaglessField F mv (fst kv) (?k n') st"
      using 8(1) d by blast
    show "validateMap F mv (kv # kvs) field st = validateMap F mv (kv # kvs) n' st"
    proof (cases "deepValidateTaglessField F mv (fst kv) (?k field) st")
      case (Inl p)
      moreover from Inl a
      have "deepValidateTaglessField F mv (fst kv) (?k n') st = Inl p" by simp
      ultimately show ?thesis by simp
    next
      case r1: (Inr r)
      obtain errs1 st1 where r: "r = (errs1, st1)" by (cases r)
      have b: "deepValidateTaglessField F mv (snd kv) (?v field) st1 =
          deepValidateTaglessField F mv (snd kv) (?v n') st1"
        using 8(2) [OF r1 [unfolded r] refl] d by blast
      have k: "deepValidateTaglessField F mv (fst kv) (?k field) st = Inr (errs1, st1)"
        using r1 r by simp
      have k': "deepValidateTaglessField F mv (fst kv) (?k n') st = Inr (errs1, st1)"
        using r1 r a by simp
      show ?thesis
      proof (cases "deepValidateTaglessField F mv (snd kv) (?v field) st1")
        case (Inl p)
        moreover from Inl b
        have "deepValidateTaglessField F mv (snd kv) (?v n') st1 = Inl p" by simp
        ultimately show ?thesis using k k' by simp
      next
        case (Inr r2)
        obtain errs2 st2 where r2: "r2 = (errs2, st2)" by (cases r2)
        have "validateMap F mv kvs field st2 = validateMap F mv kvs n' st2"
          using 8(3) [OF r1 [unfolded r] refl Inr [unfolded r2] refl] d by blast
        moreover from Inr r2
        have "deepValidateTaglessField F mv (snd kv) (?v field) st1 = Inr (errs2, st2)"
          by simp
        moreover from Inr r2 b
        have "deepValidateTaglessField F mv (snd kv) (?v n') st1 = Inr (errs2, st2)"
          by simp
        ultimately show ?thesis using k k' by simp
      qed
    qed
  qed
qed


text \<open>
  What holds of the field paths with full error path: under a named parent, the errors
  of a struct are those of the struct under no name, each prefixed once; and the errors
  of a pointer are those of the pointed-to value under the same name, each prefixed
  once more.
\<close>

lemma full_path_prefixes_struct_once:
  "fullErrorPath mv \<Longrightarrow> n \<noteq> [] \<Longrightarrow>
   validateStruct F mv (VStruct fs) n st =
     (case validateStruct F mv (VStruct fs) [] st of
        Inl p \<Rightarrow> Inl p
      | Inr (errs, st') \<Rightarrow>
          Inr (map (\<lambda>err. \<lparr>Field = n @ ''.'' @ Field err,
                            Description = Description err\<rparr>) errs, st'))"
  by (auto simp: validateStruct.simps [of F mv "VStruct fs"] prefixFieldName_def
      split: sum.splits)

lemma full_path_prefixes_pointer_again:
  "fullErrorPath mv \<Longrightarrow> n \<noteq> [] \<Longrightarrow>
   validateStruct F mv (VPtr (Some x)) n st =
     (case validateStruct F mv x n st of
        Inl p \<Rightarrow> Inl p
      | Inr (errs, st') \<Rightarrow>
          Inr (map (\<lambda>err. \<lparr>Field = n @ ''.'' @ Field err,
                            Description = Description err\<rparr>) errs, st'))"
  by (auto simp: validateStruct.simps [of F mv "VPtr (Some x)"] prefixFieldName_def
      split: sum.splits)

text \<open>
  What holds of the descriptions: switching the mode changes neither the panic, nor the
  state, nor the descriptions and their order.
\<close>

lemma sameDescriptions_Inl: "sameDescriptions (Inl p) r' = (r' = Inl p)"
  by (simp add: sameDescriptions_def)

lemma sameDescriptions_Inr:
  "sameDescriptions (Inr (errs, st)) r' =
     (\<exists>errs'. r' = Inr (errs', st) \<and> map Description errs' = map Description errs)"
  by (cases r') (auto simp: sameDescriptions_def)

lemma Description_prefixFieldName:
  "map Description (prefixFieldName mv n errs) = map Description errs"
  by (simp add: prefixFieldName_def comp_def)

lemma mustParseTags_loop_mode:
  "mustParseTags_loop (mv\<lparr>fullErrorPath := b\<rparr>) ps tags = mustParseTags_loop mv ps tags"
  by (induction ps arbitrary: tags) (simp_all split: option.splits)

lemma mustParseTags_mode:
  "mustParseTags (mv\<lparr>fullErrorPath := b\<rparr>) t st = mustParseTags mv t st"
  by (simp add: mustParseTags_def mustParseTags_loop_mode cong: option.case_cong)

lemma singleField_mode:
  "singleField (mv\<lparr>fullErrorPath := b\<rparr>) v field t st = singleField mv v field t st"
  by (simp add: singleField_def mustParseTags_mode)

lemma Validator_Field_mode:
  "Validator_Field (mv\<lparr>fullErrorPath := b\<rparr>) v field tags st = Validator_Field mv v field tags st"
proof (induction mv v field tags st rule: Validator_Field.induct)
  case (1 mv val field tags st)
  show ?case
  proof (cases "ValueOf val")
    case (VPtr q)
    then show ?thesis using 1
      by (cases q) (simp_all add: singleField_mode)
  qed (simp_all add: singleField_mode)
qed

lemma validateStructFields_step:
  "fname f = c # cs \<Longrightarrow> IsUpper c \<Longrightarrow> Tag_Get (ftag f) (tagName m) = t \<Longrightarrow> t \<noteq> ''-'' \<Longrightarrow>
   validateStructFields F m (f # fs) st =
     (case (if t \<noteq> [] then Validator_Field m (derefPtrs (fval f)) (fname f) t st
            else Inr (None, st)) of
        Inl p \<Rightarrow> Inl p
      | Inr (err, st1) \<Rightarrow>
          (case deepValidateTaglessField F m (derefPtrs (fval f)) (fname f) st1 of
             Inl p \<Rightarrow> Inl p
           | Inr (errs, st2) \<Rightarrow>
               (case validateStructFields F m fs st2 of
                  Inl p \<Rightarrow> Inl p
                | Inr (rest, st3) \<Rightarrow> Inr (optErr err @ errs @ rest, st3))))"
  by (simp del: Validator_Field.simps)

lemma descriptions_same_in_both_modes:
  shows "sameDescriptions (validateStruct F mv v n st)
           (validateStruct F (mv\<lparr>fullErrorPath := b\<rparr>) v n st)"
    and "sameDescriptions (validateStructFields F mv fs st)
           (validateStructFields F (mv\<lparr>fullErrorPath := b\<rparr>) fs st)"
    and "sameDescriptions (deepValidateTaglessField F mv v n st)
           (deepValidateTaglessField F (mv\<lparr>fullErrorPath := b\<rparr>) v n st)"
    and "sameDescriptions (validateCollection F mv xs i n st)
           (validateCollection F (mv\<lparr>fullErrorPath := b\<rparr>) xs i n st)"
    and "sameDescriptions (validateMap F mv kvs n st)
           (validateMap F (mv\<lparr>fullErrorPath := b\<rparr>) kvs n st)"
proof (induction F mv v n st and F mv fs st and F mv v n st and F mv xs i n st and F mv kvs n st
    rule: validateStruct_validateStructFields_deepValidateTaglessField_validateCollection_validateMap.induct)
  case (1 F mv "value" fieldName st)
  let ?mv' = "mv\<lparr>fullErrorPath := b\<rparr>"
  show ?case
  proof (cases "ValueOf value")
    case (VPtr q)
    show ?thesis
    proof (cases q)
      case None
      with VPtr show ?thesis
        by (simp add: validateStruct.simps [of F _ "value"] sameDescriptions_Inr)
    next
      case (Some x)
      with VPtr 1 have IH: "sameDescriptions (validateStruct F mv x fieldName st)
          (validateStruct F ?mv' x fieldName st)" by simp
      show ?thesis
      proof (cases "validateStruct F mv x fieldName st")
        case (Inl p)
        with IH VPtr Some show ?thesis
          by (simp add: validateStruct.simps [of F _ "value"] sameDescriptions_Inl)
      next
        case (Inr r)
        obtain errs st1 where r: "r = (errs, st1)" by (cases r)
        with IH Inr obtain errs' where
          "validateStruct F ?mv' x fieldName st = Inr (errs', st1)"
          "map Description errs' = map Description errs"
          by (auto simp: sameDescriptions_Inr)
        with Inr r VPtr Some show ?thesis
          by (simp add: validateStruct.simps [of F _ "value"] sameDescriptions_Inr
              Description_prefixFieldName)
      qed
    qed
  next
    case (VStruct fs)
    with 1 have IH: "sameDescriptions (validateStructFields F mv fs st)
        (validateStructFields F ?mv' fs st)" by simp
    show ?thesis
    proof (cases "validateStructFields F mv fs st")
      case (Inl p)
      with IH VStruct show ?thesis
        by (simp add: validateStruct.simps [of F _ "value"] sameDescriptions_Inl)
    next
      case (Inr r)
      obtain errs st1 where r: "r = (errs, st1)" by (cases r)
      with IH Inr obtain errs' where
        "validateStructFields F ?mv' fs st = Inr (errs', st1)"
        "map Description errs' = map Description errs"
        by (auto simp: sameDescriptions_Inr)
      with Inr r VStruct show ?thesis
        by (simp add: validateStruct.simps [of F _ "value"] sameDescriptions_Inr
            Description_prefixFieldName)
    qed
  qed (simp_all add: validateStruct.simps [of F _ "value"] sameDescriptions_Inr
        sameDescriptions_Inl)
next
  case (2 F mv st)
  show ?case by (simp add: sameDescriptions_Inr)
next
  case (3 F mv f fs st)
  let ?mv' = "mv\<lparr>fullErrorPath := b\<rparr>"
  let ?t = "Tag_Get (ftag f) (tagName mv)"
  let ?v = "derefPtrs (fval f)"
  show ?case
  proof (cases "fname f")
    case Nil
    then show ?thesis by (simp add: sameDescriptions_Inl)
  next
    case (Cons c cs)
    show ?thesis
    proof (cases "\<not> IsUpper c \<or> ?t = ''-''")
      case True
      then show ?thesis using 3(1,2) [OF Cons] Cons by auto
    next
      case False
      then have u: "\<not> \<not> IsUpper c" "?t \<noteq> ''-''" by auto
      let ?r0 = "if ?t \<noteq> [] then Validator_Field mv ?v (fname f) ?t st else Inr (None, st)"
      have r0': "(if ?t \<noteq> [] then Validator_Field ?mv' ?v (fname f) ?t st else Inr (None, st))
          = ?r0" by (simp add: Validator_Field_mode del: Validator_Field.simps)
      have t': "Tag_Get (ftag f) (tagName ?mv') = ?t" by simp
      from u have up: "IsUpper c" by simp
      note s = validateStructFields_step [OF Cons up refl u(2), of F fs st]
      note s' = validateStructFields_step [OF Cons up t' u(2), of F fs st, unfolded r0']
      show ?thesis
      proof (cases ?r0)
        case (Inl p)
        show ?thesis by (simp only: s s' Inl sum.case sameDescriptions_Inl)
      next
        case (Inr r)
        obtain err st1 where r: "r = (err, st1)" by (cases r)
        note r0 = Inr [unfolded r]
        have IH1: "sameDescriptions (deepValidateTaglessField F mv ?v (fname f) st1)
            (deepValidateTaglessField F ?mv' ?v (fname f) st1)"
          using 3(3) [OF Cons u r0 refl] .
        show ?thesis
        proof (cases "deepValidateTaglessField F mv ?v (fname f) st1")
          case (Inl p)
          with IH1 have d': "deepValidateTaglessField F ?mv' ?v (fname f) st1 = Inl p"
            by (simp add: sameDescriptions_Inl)
          show ?thesis
            by (simp only: s s' r0 Inl d' sum.case prod.case sameDescriptions_Inl)
        next
          case d: (Inr r2)
          obtain errs st2 where r2: "r2 = (errs, st2)" by (cases r2)
          note d0 = d [unfolded r2]
          with IH1 obtain errs' where d':
            "deepValidateTaglessField F ?mv' ?v (fname f) st1 = Inr (errs', st2)"
            and de: "map Description errs' = map Description errs"
            by (auto simp: sameDescriptions_Inr)
          have IH2: "sameDescriptions (validateStructFields F mv fs st2)
              (validateStructFields F ?mv' fs st2)"
            using 3(4) [OF Cons u r0 refl d0 refl] .
          show ?thesis
          proof (cases "validateStructFields F mv fs st2")
            case (Inl p)
            with IH2 have e': "validateStructFields F ?mv' fs st2 = Inl p"
              by (simp add: sameDescriptions_Inl)
            show ?thesis
              by (simp only: s s' r0 d0 d' Inl e' sum.case prod.case sameDescriptions_Inl)
          next
            case e: (Inr r3)
            obtain rest st3 where r3: "r3 = (rest, st3)" by (cases r3)
            note e0 = e [unfolded r3]
            with IH2 obtain rest' where e':
              "validateStructFields F ?mv' fs st2 = Inr (rest', st3)"
              and re: "map Description rest' = map Description rest"
              by (auto simp: sameDescriptions_Inr)
            have a: "validateStructFields F mv (f # fs) st = Inr (optErr err @ errs @ rest, st3)"
              by (simp only: s r0 d0 e0 sum.case prod.case)
            have a': "validateStructFields F ?mv' (f # fs) st =
                Inr (optErr err @ errs' @ rest', st3)"
              by (simp only: s' r0 d' e' sum.case prod.case)
            show ?thesis by (simp only: a a') (simp add: sameDescriptions_Inr de re)
          qed
        qed
      qed
    qed
  qed
next
  case (4 F mv "value" field st)
  then show ?case
    by (cases "value")
      (auto simp: deepValidateTaglessField.simps sameDescriptions_Inr split: option.splits)
next
  case (5 F mv i field st)
  show ?case by (simp add: sameDescriptions_Inr)
next
  case (6 F mv x xs i field st)
  let ?mv' = "mv\<lparr>fullErrorPath := b\<rparr>"
  let ?p = "field @ ''['' @ string_of_rune (rune i) @ '']''"
  have IH1: "sameDescriptions (deepValidateTaglessField F mv x ?p st)
      (deepValidateTaglessField F ?mv' x ?p st)" using 6(1) .
  show ?case
  proof (cases "deepValidateTaglessField F mv x ?p st")
    case (Inl p)
    with IH1 have "deepValidateTaglessField F ?mv' x ?p st = Inl p"
      by (simp add: sameDescriptions_Inl)
    with Inl show ?thesis by (simp add: sameDescriptions_Inl)
  next
    case d: (Inr r)
    obtain errs st1 where r: "r = (errs, st1)" by (cases r)
    with IH1 d obtain errs' where d':
      "deepValidateTaglessField F ?mv' x ?p st = Inr (errs', st1)"
      "map Description errs' = map Description errs"
      by (auto simp: sameDescriptions_Inr)
    have IH2: "sameDescriptions (validateCollection F mv xs (Suc i) field st1)
        (validateCollection F ?mv' xs (Suc i) field st1)"
      using 6(2) [OF d [unfolded r] refl] .
    show ?thesis
    proof (cases "validateCollection F mv xs (Suc i) field st1")
      case (Inl p)
      with IH2 have "validateCollection F ?mv' xs (Suc i) field st1 = Inl p"
        by (simp add: sameDescriptions_Inl)
      with Inl d r d' show ?thesis by (simp add: sameDescriptions_Inl)
    next
      case e: (Inr r3)
      obtain rest st3 where r3: "r3 = (rest, st3)" by (cases r3)
      with IH2 e obtain rest' where
        "validateCollection F ?mv' xs (Suc i) field st1 = Inr (rest', st3)"
        "map Description rest' = map Description rest"
        by (auto simp: sameDescriptions_Inr)
      with e r3 d r d' show ?thesis by (simp add: sameDescriptions_Inr)
    qed
  qed
next
  case (7 F mv field st)
  show ?case by (simp add: sameDescriptions_Inr)
next
  case (8 F mv kv kvs field st)
  let ?mv' = "mv\<lparr>fullErrorPath := b\<rparr>"
  let ?k = "field @ ''['' @ F (ValueOf (fst kv)) @ ''](key)''"
  let ?v = "field @ ''['' @ F (ValueOf (fst kv)) @ ''](value)''"
  have IH1: "sameDescriptions (deepValidateTaglessField F mv (fst kv) ?k st)
      (deepValidateTaglessField F ?mv' (fst kv) ?k st)" using 8(1) .
  show ?case
  proof (cases "deepValidateTaglessField F mv (fst kv) ?k st")
    case (Inl p)
    with IH1 have "deepValidateTaglessField F ?mv' (fst kv) ?k st = Inl p"
      by (simp add: sameDescriptions_Inl)
    with Inl show ?thesis by (simp add: sameDescriptions_Inl)
  next
    case d: (Inr r)
    obtain errs1 st1 where r: "r = (errs1, st1)" by (cases r)
    with IH1 d obtain errs1' where d':
      "deepValidateTaglessField F ?mv' (fst kv) ?k st = Inr (errs1', st1)"
      "map Description errs1' = map Description errs1"
      by (auto simp: sameDescriptions_Inr)
    have IH2: "sameDescriptions (deepValidateTaglessField F mv (snd kv) ?v st1)
        (deepValidateTaglessField F ?mv' (snd kv) ?v st1)"
      using 8(2) [OF d [unfolded r] refl] .
    show ?thesis
    proof (cases "deepValidateTaglessField F mv (snd kv) ?v st1")
      case (Inl p)
      with IH2 have "deepValidateTaglessField F ?mv' (snd kv) ?v st1 = Inl p"
        by (simp add: sameDescriptions_Inl)
      with Inl d r d' show ?thesis by (simp add: sameDescriptions_Inl)
    next
      case e: (Inr r2)
      obtain errs2 st2 where r2: "r2 = (errs2, st2)" by (cases r2)
      with IH2 e obtain errs2' where e':
        "deepValidateTaglessField F ?mv' (snd kv) ?v st1 = Inr (errs2', st2)"
        "map Description errs2' = map Description errs2"
        by (auto simp: sameDescriptions_Inr)
      have IH3: "sameDescriptions (validateMap F mv kvs field st2)
          (validateMap F ?mv' kvs field st2)"
        using 8(3) [OF d [unfolded r] refl e [unfolded r2] refl] .
      show ?thesis
      proof (cases "validateMap F mv kvs field st2")
        case (Inl p)
        with IH3 have "validateMap F ?mv' kvs field st2 = Inl p"
          by (simp add: sameDescriptions_Inl)
        with Inl d r d' e r2 e' show ?thesis by (simp add: sameDescriptions_Inl)
      next
        case g: (Inr r3)
        obtain rest st3 where r3: "r3 = (rest, st3)" by (cases r3)
        with IH3 g obtain rest' where
          "validateMap F ?mv' kvs field st2 = Inr (rest', st3)"
          "map Description rest' = map Description rest"
          by (auto simp: sameDescriptions_Inr)
        with g r3 d r d' e r2 e' show ?thesis by (simp add: sameDescriptions_Inr)
      qed
    qed
  qed
qed


section \<open>Properties of the date rules\<close>

text \<open>
  C5 on the code: with the parameter \<^verbatim>\<open>now\<close> the bound of \<^verbatim>\<open>mindate\<close> and
  \<^verbatim>\<open>maxdate\<close> is the current instant, time of day included, for a \<^verbatim>\<open>time.Time\<close>
  and for a date string alike. So at any instant that is not midnight UTC, the date of
  today (the start of the current day) satisfies \<^verbatim>\<open>maxdate=now\<close> and fails
  \<^verbatim>\<open>mindate=now\<close>.
\<close>

theorem mindate_now_rejects_todays_date:
  "(MinDate now Parse (VTime t) ''now'' = Inr (now \<le> t)
    \<and> MaxDate now Parse (VTime t) ''now'' = Inr (t \<le> now))
   \<and> (s \<noteq> [] \<and> Parse s = Some t \<longrightarrow>
        MinDate now Parse (VString s) ''now'' = Inr (now \<le> t)
        \<and> MaxDate now Parse (VString s) ''now'' = Inr (t \<le> now))
   \<and> (startOfDay now \<noteq> now \<longrightarrow>
        MinDate now Parse (VTime (startOfDay now)) ''now'' = Inr False
        \<and> MaxDate now Parse (VTime (startOfDay now)) ''now'' = Inr True)"
proof -
  have m: "0 \<le> now mod nsPerDay" by (simp add: nsPerDay_def)
  have a: "MinDate now Parse (VTime t) ''now'' = Inr (now \<le> t)" for t
    by (auto simp: MinDate_def parseDate_def)
  have b: "MaxDate now Parse (VTime t) ''now'' = Inr (t \<le> now)" for t
    by (auto simp: MaxDate_def parseDate_def)
  have c: "s \<noteq> [] \<and> Parse s = Some t \<longrightarrow>
        MinDate now Parse (VString s) ''now'' = Inr (now \<le> t)
        \<and> MaxDate now Parse (VString s) ''now'' = Inr (t \<le> now)"
    by (auto simp: MinDate_def MaxDate_def parseDate_def)
  have d: "startOfDay now \<noteq> now \<longrightarrow> \<not> now \<le> startOfDay now \<and> startOfDay now \<le> now"
    using m by (simp add: startOfDay_def)
  show ?thesis using a [of t] b [of t] a [of "startOfDay now"] b [of "startOfDay now"] c d
    by simp
qed

theorem mindate_now_rejects_todays_date_witness:
  "MinDate 1793534400000000000 (\<lambda>s. None) (VTime 1793491200000000000) ''now'' = Inr False
   \<and> MaxDate 1793534400000000000 (\<lambda>s. None) (VTime 1793491200000000000) ''now'' = Inr True
   \<and> startOfDay 1793534400000000000 = 1793491200000000000"
proof -
  have s: "startOfDay 1793534400000000000 = 1793491200000000000"
    by (simp add: startOfDay_def nsPerDay_def)
  show ?thesis
    using mindate_now_rejects_todays_date
      [of 1793534400000000000 "\<lambda>s. None" 1793491200000000000 "[]"] s
    by simp
qed

section \<open>Properties of the declaration parser\<close>






















end
